theory Spec2Isabelle
  imports Main "HOL-Library.Multiset"
begin

section \<open>Data model (events/models.py)\<close>

text \<open>
  Users are identified by their primary key. A point in time is an integer count of
  clock ticks (microseconds, the resolution of a Python datetime), so that two
  instants can be equal. Of the columns of \<open>Event\<close> only those read by the
  registration code are kept: the primary key, \<open>date\<close>, \<open>organizer\<close> and the
  nullable \<open>max_participants\<close>; \<open>title\<close>, \<open>description\<close>, \<open>location\<close>,
  \<open>created_at\<close> and \<open>updated_at\<close> are never consulted by it.
\<close>

record Event =
  pk :: nat
  date :: int
  organizer_id :: nat
  max_participants :: "nat option"

record EventRegistration =
  reg_pk :: nat
  event_id :: nat
  user_id :: nat
  registered_at :: int

text \<open>
  The database: the two tables in storage order and the counter from which the
  next primary key of a registration is drawn.
\<close>

record database =
  Event_objects :: "Event list"
  EventRegistration_objects :: "EventRegistration list"
  next_pk :: nat

text \<open>
  What a view sees of a request: the authenticated user (\<open>None\<close> is the anonymous
  user) and the reading of the clock, \<open>timezone.now()\<close>, while the request is served.
  The third field is the status code with which the framework refuses the request when
  it carries no user. That code is fixed by the authentication classes of the project
  settings, which are not among these sources (the response table of \<open>register\<close>
  lists 401), so it is left open.
\<close>

record request =
  request_user :: "nat option"
  now :: int
  refusal_status :: nat

text \<open>\<open>Event.registered_count\<close>: \<open>self.registrations.count()\<close>.\<close>

definition registered_count :: "database \<Rightarrow> Event \<Rightarrow> nat" where
  "registered_count db e =
     length (filter (\<lambda>r. event_id r = pk e) (EventRegistration_objects db))"

text \<open>\<open>Event.is_full\<close>.\<close>

definition is_full :: "database \<Rightarrow> Event \<Rightarrow> bool" where
  "is_full db e =
     (case max_participants e of
        None \<Rightarrow> False
      | Some m \<Rightarrow> registered_count db e \<ge> m)"

text \<open>\<open>Event.is_past\<close>: \<open>self.date < timezone.now()\<close>.\<close>

definition is_past :: "int \<Rightarrow> Event \<Rightarrow> bool" where
  "is_past t e = (date e < t)"

section \<open>Queries\<close>

text \<open>\<open>Event.objects.get(id=value)\<close>; \<open>None\<close> is \<open>Event.DoesNotExist\<close>.\<close>

definition Event_get :: "database \<Rightarrow> nat \<Rightarrow> Event option" where
  "Event_get db k = find (\<lambda>e. pk e = k) (Event_objects db)"

text \<open>\<open>EventRegistration.objects.filter(event=event, user=user)\<close>.\<close>

definition registration_filter :: "database \<Rightarrow> Event \<Rightarrow> nat \<Rightarrow> EventRegistration list" where
  "registration_filter db e u =
     filter (\<lambda>r. event_id r = pk e \<and> user_id r = u) (EventRegistration_objects db)"

text \<open>
  \<open>EventRegistration.objects.filter(event=event)\<close>, evaluated with the model's default
  ordering \<open>['-registered_at']\<close>.
\<close>

definition registrations_of :: "database \<Rightarrow> Event \<Rightarrow> EventRegistration list" where
  "registrations_of db e =
     sort_key (\<lambda>r. - registered_at r)
       (filter (\<lambda>r. event_id r = pk e) (EventRegistration_objects db))"

datatype exception = DoesNotExist | MultipleObjectsReturned | IntegrityError | ValueError

text \<open>\<open>EventRegistration.objects.get(event=event, user=user)\<close>.\<close>

definition registration_get :: "database \<Rightarrow> Event \<Rightarrow> nat \<Rightarrow> exception + EventRegistration" where
  "registration_get db e u =
     (case registration_filter db e u of
        [] \<Rightarrow> Inl DoesNotExist
      | [r] \<Rightarrow> Inr r
      | _ \<Rightarrow> Inl MultipleObjectsReturned)"

text \<open>
  \<open>EventRegistration.objects.create(event=event, user=user)\<close>: the row gets the next
  primary key and, by \<open>auto_now_add\<close>, the current time; \<open>unique_together\<close> makes
  the insert fail when the pair is already in the table.
\<close>

definition registration_create ::
  "database \<Rightarrow> int \<Rightarrow> Event \<Rightarrow> nat \<Rightarrow> exception + EventRegistration \<times> database" where
  "registration_create db t e u =
     (if registration_filter db e u \<noteq> [] then Inl IntegrityError
      else
        let r = \<lparr>reg_pk = next_pk db, event_id = pk e, user_id = u, registered_at = t\<rparr>
        in Inr (r, db\<lparr>EventRegistration_objects := EventRegistration_objects db @ [r],
                      next_pk := Suc (next_pk db)\<rparr>))"

text \<open>\<open>registration.delete()\<close>: the row with that primary key is removed.\<close>

definition registration_delete :: "database \<Rightarrow> EventRegistration \<Rightarrow> database" where
  "registration_delete db r =
     db\<lparr>EventRegistration_objects :=
          filter (\<lambda>x. reg_pk x \<noteq> reg_pk r) (EventRegistration_objects db)\<rparr>"

section \<open>The registration serializer (events/serializers.py)\<close>

text \<open>
  \<open>EventRegistrationCreateSerializer.validate_event_id\<close>: \<open>Inl\<close> carries the message
  of the \<open>ValidationError\<close> raised.
\<close>

definition validate_event_id :: "database \<Rightarrow> request \<Rightarrow> nat \<Rightarrow> string + nat" where
  "validate_event_id db req v =
     (case Event_get db v of
        None \<Rightarrow> Inl ''Event does not exist.''
      | Some e \<Rightarrow>
          if is_past (now req) e then Inl ''Cannot register for past events.''
          else if is_full db e then Inl ''Event is full.''
          else (case request_user req of
                  Some u \<Rightarrow>
                    if registration_filter db e u \<noteq> []
                    then Inl ''You are already registered for this event.''
                    else Inr v
                | None \<Rightarrow> Inr v))"

text \<open>
  \<open>EventRegistrationCreateSerializer.create\<close>. The user is read from the request;
  the anonymous user cannot be assigned to the foreign key (\<open>ValueError\<close>).
\<close>

definition create :: "database \<Rightarrow> request \<Rightarrow> nat \<Rightarrow> exception + EventRegistration \<times> database" where
  "create db req v =
     (case Event_get db v of
        None \<Rightarrow> Inl DoesNotExist
      | Some e \<Rightarrow>
          (case request_user req of
             None \<Rightarrow> Inl ValueError
           | Some u \<Rightarrow> registration_create db (now req) e u))"

section \<open>Responses\<close>

text \<open>
  The body of a response: the serialized registration, the serialized list, the
  dictionaries \<open>{'message': _}\<close> and \<open>{'error': _}\<close> built by the views, the
  \<open>serializer.errors\<close> dictionary (one field, one message), and the body the
  framework itself writes for an exception it handles.
\<close>

datatype body =
    Data EventRegistration
  | DataList "EventRegistration list"
  | Message string
  | Error string
  | Errors string string
  | Detail

record response =
  status :: nat
  content :: body

text \<open>
  The responses that stand for the typed errors of the registration service. The first
  two are produced by the framework: a request without a user is refused by the
  permission class \<open>IsAuthenticated\<close>, with the status code of the request's
  \<open>refusal_status\<close>, and \<open>get_object\<close> answers 404 for an unknown event. The
  others are built in \<open>register\<close>, \<open>unregister\<close> and \<open>registrations\<close>.
\<close>

definition Unauthenticated :: "request \<Rightarrow> response" where
  "Unauthenticated req = \<lparr>status = refusal_status req, content = Detail\<rparr>"

definition NotFound :: response where
  "NotFound = \<lparr>status = 404, content = Detail\<rparr>"

definition bad_request :: "string \<Rightarrow> response" where
  "bad_request msg = \<lparr>status = 400, content = Errors ''event_id'' msg\<rparr>"

definition Closed :: response where
  "Closed = bad_request ''Cannot register for past events.''"

definition Full :: response where
  "Full = bad_request ''Event is full.''"

definition AlreadyRegistered :: response where
  "AlreadyRegistered = bad_request ''You are already registered for this event.''"

definition NotRegistered :: response where
  "NotRegistered = \<lparr>status = 404, content = Error ''You are not registered for this event''\<rparr>"

definition Forbidden :: response where
  "Forbidden = \<lparr>status = 403, content = Error ''Only the organizer can view registrations''\<rparr>"

definition Created :: "EventRegistration \<Rightarrow> response" where
  "Created r = \<lparr>status = 201, content = Data r\<rparr>"

definition Unregistered :: response where
  "Unregistered = \<lparr>status = 200, content = Message ''Successfully unregistered from event''\<rparr>"

section \<open>The views (events/views.py)\<close>

text \<open>
  \<open>self.get_object()\<close> on the unfiltered queryset \<open>Event.objects.all()\<close>:
  \<open>None\<close> is \<open>Http404\<close>.
\<close>

definition get_object :: "database \<Rightarrow> nat \<Rightarrow> Event option" where
  "get_object db k = find (\<lambda>e. pk e = k) (Event_objects db)"

text \<open>
  \<open>EventViewSet.register\<close>. The mailer \<open>send_registration_email\<close> is a parameter:
  \<open>Some m\<close> is an \<open>Exception\<close> whose text is \<open>m\<close>. The result is the response (or
  the exception that leaves the view), the database after the request, and what the
  view printed.
\<close>

definition register ::
  "(Event \<Rightarrow> nat \<Rightarrow> string option) \<Rightarrow> request \<Rightarrow> nat \<Rightarrow> database
     \<Rightarrow> (exception + response) \<times> database \<times> string list" where
  "register send_registration_email req k db =
     (case request_user req of
        None \<Rightarrow> (Inr (Unauthenticated req), db, [])
      | Some u \<Rightarrow>
          (case get_object db k of
             None \<Rightarrow> (Inr NotFound, db, [])
           | Some e \<Rightarrow>
               (case validate_event_id db req (pk e) of
                  Inl msg \<Rightarrow> (Inr (bad_request msg), db, [])
                | Inr v \<Rightarrow>
                    (case create db req v of
                       Inl ex \<Rightarrow> (Inl ex, db, [])
                     | Inr (r, db') \<Rightarrow>
                         (Inr (Created r), db',
                          (case send_registration_email e u of
                             None \<Rightarrow> []
                           | Some m \<Rightarrow> [''Failed to send email: '' @ m]))))))"

text \<open>\<open>EventViewSet.unregister\<close>.\<close>

definition unregister :: "request \<Rightarrow> nat \<Rightarrow> database \<Rightarrow> (exception + response) \<times> database" where
  "unregister req k db =
     (case request_user req of
        None \<Rightarrow> (Inr (Unauthenticated req), db)
      | Some u \<Rightarrow>
          (case get_object db k of
             None \<Rightarrow> (Inr NotFound, db)
           | Some e \<Rightarrow>
               (case registration_get db e u of
                  Inr r \<Rightarrow> (Inr Unregistered, registration_delete db r)
                | Inl DoesNotExist \<Rightarrow> (Inr NotRegistered, db)
                | Inl ex \<Rightarrow> (Inl ex, db))))"

text \<open>\<open>EventViewSet.registrations\<close>.\<close>

definition registrations :: "request \<Rightarrow> nat \<Rightarrow> database \<Rightarrow> response" where
  "registrations req k db =
     (case request_user req of
        None \<Rightarrow> Unauthenticated req
      | Some u \<Rightarrow>
          (case get_object db k of
             None \<Rightarrow> NotFound
           | Some e \<Rightarrow>
               if organizer_id e \<noteq> u then Forbidden
               else \<lparr>status = 200, content = DataList (registrations_of db e)\<rparr>))"

section \<open>Sequences of calls\<close>

text \<open>
  A client call to one of the two mutating endpoints, with the request and the
  primary key in the URL; \<open>perform\<close> is the database after the call and \<open>run\<close>
  serves a list of calls one after the other.
\<close>

datatype call = Register request nat | Unregister request nat

fun perform :: "(Event \<Rightarrow> nat \<Rightarrow> string option) \<Rightarrow> database \<Rightarrow> call \<Rightarrow> database" where
  "perform m db (Register req k) = fst (snd (register m req k db))"
| "perform m db (Unregister req k) = snd (unregister req k db)"

definition run :: "(Event \<Rightarrow> nat \<Rightarrow> string option) \<Rightarrow> database \<Rightarrow> call list \<Rightarrow> database" where
  "run m db cs = foldl (perform m) db cs"

section \<open>Calls served at the same time\<close>







text \<open>The row that a successful \<open>register\<close> inserts.\<close>

definition new_row :: "database \<Rightarrow> request \<Rightarrow> Event \<Rightarrow> nat \<Rightarrow> EventRegistration" where
  "new_row db req e u =
     \<lparr>reg_pk = next_pk db, event_id = pk e, user_id = u, registered_at = now req\<rparr>"

section \<open>Example data\<close>

text \<open>
  An event with a single seat that starts at time 100, a database where user 7 holds
  that seat, and one where nobody is registered yet.
\<close>

definition conference :: Event where
  "conference = \<lparr>pk = 1, date = 100, organizer_id = 10, max_participants = Some 1\<rparr>"

definition sold_out :: database where
  "sold_out =
     \<lparr>Event_objects = [conference],
      EventRegistration_objects = [\<lparr>reg_pk = 0, event_id = 1, user_id = 7, registered_at = 50\<rparr>],
      next_pk = 1\<rparr>"

definition vacant :: database where
  "vacant = \<lparr>Event_objects = [conference], EventRegistration_objects = [], next_pk = 0\<rparr>"

definition no_mail_error :: "Event \<Rightarrow> nat \<Rightarrow> string option" where
  "no_mail_error e u = None"

definition mail_error :: "Event \<Rightarrow> nat \<Rightarrow> string option" where
  "mail_error e u = Some ''Connection refused''"

definition by_user :: "nat \<Rightarrow> int \<Rightarrow> request" where
  "by_user u t = \<lparr>request_user = Some u, now = t, refusal_status = 401\<rparr>"

text \<open>A request without a user, in a project whose refusals carry the status 403.\<close>

definition anonymous :: request where
  "anonymous = \<lparr>request_user = None, now = 60, refusal_status = 403\<rparr>"

text \<open>
  An event without a capacity, and a database whose registrations are stored in an
  order that is not the order of their creation times.
\<close>

definition meetup :: Event where
  "meetup = \<lparr>pk = 2, date = 200, organizer_id = 10, max_participants = None\<rparr>"

definition busy :: database where
  "busy =
     \<lparr>Event_objects = [conference, meetup],
      EventRegistration_objects =
        [\<lparr>reg_pk = 0, event_id = 2, user_id = 7, registered_at = 50\<rparr>,
         \<lparr>reg_pk = 1, event_id = 1, user_id = 7, registered_at = 55\<rparr>,
         \<lparr>reg_pk = 2, event_id = 2, user_id = 8, registered_at = 70\<rparr>,
         \<lparr>reg_pk = 3, event_id = 2, user_id = 9, registered_at = 60\<rparr>],
      next_pk = 4\<rparr>"

section \<open>Integrity constraints\<close>

text \<open>
  What the storage layer guarantees of the registration table: \<open>unique_together\<close>
  on the pair (event, user), and primary keys that are distinct and below the counter.
  Every run of calls keeps both (lemma \<open>run_consistent\<close>).
\<close>

definition unique_together :: "database \<Rightarrow> bool" where
  "unique_together db =
     distinct (map (\<lambda>r. (event_id r, user_id r)) (EventRegistration_objects db))"

definition primary_keys :: "database \<Rightarrow> bool" where
  "primary_keys db =
     (distinct (map reg_pk (EventRegistration_objects db))
      \<and> list_all (\<lambda>r. reg_pk r < next_pk db) (EventRegistration_objects db))"

definition consistent :: "database \<Rightarrow> bool" where
  "consistent db = (unique_together db \<and> primary_keys db)"

section \<open>The outcomes of \<open>register\<close>\<close>

lemma get_object_pk: "get_object db k = Some e \<Longrightarrow> pk e = k"
  by (auto simp: get_object_def find_Some_iff)

lemma Event_get_eq: "Event_get db k = get_object db k"
  by (simp add: Event_get_def get_object_def)

lemma register_past:
  assumes "request_user req = Some u" "get_object db k = Some e" "is_past (now req) e"
  shows "register m req k db = (Inr Closed, db, [])"
  using assms get_object_pk[OF assms(2)]
  by (simp add: register_def validate_event_id_def Event_get_eq Closed_def)

lemma register_full:
  assumes "request_user req = Some u" "get_object db k = Some e" "\<not> is_past (now req) e"
    "is_full db e"
  shows "register m req k db = (Inr Full, db, [])"
  using assms get_object_pk[OF assms(2)]
  by (simp add: register_def validate_event_id_def Event_get_eq Full_def)

lemma register_duplicate:
  assumes "request_user req = Some u" "get_object db k = Some e" "\<not> is_past (now req) e"
    "\<not> is_full db e" "registration_filter db e u \<noteq> []"
  shows "register m req k db = (Inr AlreadyRegistered, db, [])"
  using assms get_object_pk[OF assms(2)]
  by (simp add: register_def validate_event_id_def Event_get_eq AlreadyRegistered_def)

lemma register_admitted:
  assumes "request_user req = Some u" "get_object db k = Some e" "\<not> is_past (now req) e"
    "\<not> is_full db e" "registration_filter db e u = []"
  shows "register m req k db =
     (Inr (Created (new_row db req e u)),
      db\<lparr>EventRegistration_objects := EventRegistration_objects db @ [new_row db req e u],
         next_pk := Suc (next_pk db)\<rparr>,
      (case m e u of None \<Rightarrow> [] | Some x \<Rightarrow> [''Failed to send email: '' @ x]))"
  using assms get_object_pk[OF assms(2)]
  by (simp add: register_def validate_event_id_def Event_get_eq create_def
      registration_create_def new_row_def Let_def)

lemma register_cases:
  assumes "request_user req = Some u" "get_object db k = Some e"
  obtains (past) "is_past (now req) e" "register m req k db = (Inr Closed, db, [])"
  | (full) "\<not> is_past (now req) e" "is_full db e" "register m req k db = (Inr Full, db, [])"
  | (dup) "\<not> is_past (now req) e" "\<not> is_full db e" "registration_filter db e u \<noteq> []"
      "register m req k db = (Inr AlreadyRegistered, db, [])"
  | (ok) "\<not> is_past (now req) e" "\<not> is_full db e" "registration_filter db e u = []"
      "register m req k db =
     (Inr (Created (new_row db req e u)),
      db\<lparr>EventRegistration_objects := EventRegistration_objects db @ [new_row db req e u],
         next_pk := Suc (next_pk db)\<rparr>,
      (case m e u of None \<Rightarrow> [] | Some x \<Rightarrow> [''Failed to send email: '' @ x]))"
  using register_past[OF assms] register_full[OF assms] register_duplicate[OF assms]
    register_admitted[OF assms] by blast

lemma register_events: "Event_objects (fst (snd (register m req k db))) = Event_objects db"
  by (auto simp: register_def create_def registration_create_def Let_def
      split: option.splits sum.splits if_splits)

lemma unregister_events: "Event_objects (snd (unregister req k db)) = Event_objects db"
  by (auto simp: unregister_def registration_delete_def
      split: option.splits sum.splits exception.splits)



section \<open>Capacity\<close>

lemma run_events: "Event_objects (run m db cs) = Event_objects db"
  unfolding run_def
proof (induction cs arbitrary: db)
  case Nil show ?case by simp
next
  case (Cons c cs)
  show ?case by (cases c) (simp_all add: Cons.IH register_events unregister_events)
qed







section \<open>Facts about the example data\<close>

lemma sold_out_event: "get_object sold_out 1 = Some conference"
  by (simp add: get_object_def sold_out_def conference_def)

lemma vacant_event: "get_object vacant 1 = Some conference"
  by (simp add: get_object_def vacant_def conference_def)

lemma by_user_simps: "request_user (by_user u t) = Some u" "now (by_user u t) = t"
  by (simp_all add: by_user_def)

lemma sold_out_count: "registered_count sold_out conference = 1"
  by (simp add: registered_count_def sold_out_def conference_def)

lemma vacant_count: "registered_count vacant conference = 0"
  by (simp add: registered_count_def vacant_def)

lemma conference_capacity: "max_participants conference = Some 1"
  by (simp add: conference_def)

lemma sold_out_full: "is_full sold_out conference"
  by (simp add: is_full_def sold_out_count conference_capacity)

lemma vacant_not_full: "\<not> is_full vacant conference"
  by (simp add: is_full_def vacant_count conference_capacity)

lemma sold_out_holder: "registration_filter sold_out conference 7 \<noteq> []"
  by (simp add: registration_filter_def sold_out_def conference_def)

lemma errors_distinct:
  "distinct [NotFound, Closed, Full, AlreadyRegistered, NotRegistered, Forbidden]"
  by (simp add: NotFound_def Closed_def Full_def AlreadyRegistered_def
      NotRegistered_def Forbidden_def bad_request_def)

section \<open>The order of the checks in \<open>register\<close>\<close>

text \<open>
  Claim C3, as stated, fails: the code tests the capacity before it looks for a
  registration of the caller. User 7 holds the only seat of the event; a second
  \<open>register\<close> by user 7 before the start is answered \<open>Full\<close>, not
  \<open>AlreadyRegistered\<close>.
\<close>

theorem register_order_counterexample:
  "registration_filter sold_out conference 7 \<noteq> [] \<and> is_full sold_out conference
   \<and> \<not> is_past 60 conference
   \<and> fst (register no_mail_error (by_user 7 60) 1 sold_out) = Inr Full
   \<and> fst (register no_mail_error (by_user 7 60) 1 sold_out) \<noteq> Inr AlreadyRegistered"
proof -
  have p: "\<not> is_past (now (by_user 7 60)) conference"
    by (simp add: by_user_simps is_past_def conference_def)
  have "register no_mail_error (by_user 7 60) 1 sold_out = (Inr Full, sold_out, [])"
    using register_full[OF by_user_simps(1) sold_out_event p sold_out_full] .
  moreover have "Full \<noteq> AlreadyRegistered"
    by (simp add: Full_def AlreadyRegistered_def bad_request_def)
  ultimately show ?thesis using p sold_out_holder sold_out_full
    by (simp add: by_user_simps)
qed

text \<open>
  Claim C3, amended. For an authenticated caller \<open>register\<close> checks in the order
  \<open>NotFound\<close> (no event with that key), \<open>Closed\<close> (the event is past),
  \<open>Full\<close> (capacity reached), \<open>AlreadyRegistered\<close> (the caller holds a
  registration), and admits the caller when none applies; the four failures are
  distinct responses. In particular a caller who is registered for an event at capacity
  is answered \<open>Full\<close>.
\<close>

theorem register_order:
  assumes "request_user req = Some u"
  shows "(get_object db k = None \<longrightarrow> fst (register m req k db) = Inr NotFound)
       \<and> (\<forall>e. get_object db k = Some e \<longrightarrow>
            (is_past (now req) e \<longrightarrow> fst (register m req k db) = Inr Closed)
          \<and> (\<not> is_past (now req) e \<and> is_full db e \<longrightarrow> fst (register m req k db) = Inr Full)
          \<and> (\<not> is_past (now req) e \<and> \<not> is_full db e \<and> registration_filter db e u \<noteq> []
               \<longrightarrow> fst (register m req k db) = Inr AlreadyRegistered)
          \<and> (\<not> is_past (now req) e \<and> \<not> is_full db e \<and> registration_filter db e u = []
               \<longrightarrow> fst (register m req k db) = Inr (Created (new_row db req e u))))
       \<and> distinct [NotFound, Closed, Full, AlreadyRegistered]"
proof -
  have 1: "get_object db k = None \<longrightarrow> fst (register m req k db) = Inr NotFound"
    using assms by (simp add: register_def)
  have 2: "\<forall>e. get_object db k = Some e \<longrightarrow>
            (is_past (now req) e \<longrightarrow> fst (register m req k db) = Inr Closed)
          \<and> (\<not> is_past (now req) e \<and> is_full db e \<longrightarrow> fst (register m req k db) = Inr Full)
          \<and> (\<not> is_past (now req) e \<and> \<not> is_full db e \<and> registration_filter db e u \<noteq> []
               \<longrightarrow> fst (register m req k db) = Inr AlreadyRegistered)
          \<and> (\<not> is_past (now req) e \<and> \<not> is_full db e \<and> registration_filter db e u = []
               \<longrightarrow> fst (register m req k db) = Inr (Created (new_row db req e u)))"
    using register_past[OF assms] register_full[OF assms] register_duplicate[OF assms]
      register_admitted[OF assms] by simp
  have 3: "distinct [NotFound, Closed, Full, AlreadyRegistered]"
    using errors_distinct by simp
  from 1 2 3 show ?thesis by blast
qed

text \<open>The four outcomes of the order on the example data.\<close>

theorem register_order_witness:
  "fst (register no_mail_error (by_user 7 60) 2 sold_out) = Inr NotFound
   \<and> fst (register no_mail_error (by_user 7 101) 1 sold_out) = Inr Closed
   \<and> fst (register no_mail_error (by_user 7 60) 1 sold_out) = Inr Full
   \<and> fst (register no_mail_error (by_user 7 60) 1 vacant) =
       Inr (Created \<lparr>reg_pk = 0, event_id = 1, user_id = 7, registered_at = 60\<rparr>)"
proof -
  have n: "get_object sold_out 2 = None"
    by (simp add: get_object_def sold_out_def conference_def)
  have p1: "is_past (now (by_user 7 101)) conference"
    by (simp add: by_user_simps is_past_def conference_def)
  have p2: "\<not> is_past (now (by_user 7 60)) conference"
    by (simp add: by_user_simps is_past_def conference_def)
  have f: "registration_filter vacant conference 7 = []"
    by (simp add: registration_filter_def vacant_def)
  have r: "new_row vacant (by_user 7 60) conference 7 =
      \<lparr>reg_pk = 0, event_id = 1, user_id = 7, registered_at = 60\<rparr>"
    by (simp add: new_row_def vacant_def conference_def by_user_def)
  from register_order[of "by_user 7 60" 7 sold_out 2 no_mail_error] by_user_simps n
  have 1: "fst (register no_mail_error (by_user 7 60) 2 sold_out) = Inr NotFound" by simp
  from register_order[of "by_user 7 101" 7 sold_out 1 no_mail_error] by_user_simps sold_out_event p1
  have 2: "fst (register no_mail_error (by_user 7 101) 1 sold_out) = Inr Closed" by simp
  from register_order[of "by_user 7 60" 7 sold_out 1 no_mail_error] by_user_simps sold_out_event p2
    sold_out_full
  have 3: "fst (register no_mail_error (by_user 7 60) 1 sold_out) = Inr Full" by simp
  from register_order[of "by_user 7 60" 7 vacant 1 no_mail_error] by_user_simps vacant_event p2
    vacant_not_full f r
  have 4: "fst (register no_mail_error (by_user 7 60) 1 vacant) =
       Inr (Created \<lparr>reg_pk = 0, event_id = 1, user_id = 7, registered_at = 60\<rparr>)" by simp
  from 1 2 3 4 show ?thesis by blast
qed

text \<open>
  Claim C4, as stated, fails at the boundary: at the very instant of the start the
  start time is not strictly in the future, yet \<open>is_past\<close> is false and the
  caller is admitted.
\<close>

theorem register_at_start_time_counterexample:
  "\<not> date conference > now (by_user 7 100)
   \<and> fst (register no_mail_error (by_user 7 100) 1 vacant) =
       Inr (Created \<lparr>reg_pk = 0, event_id = 1, user_id = 7, registered_at = 100\<rparr>)
   \<and> fst (register no_mail_error (by_user 7 100) 1 vacant) \<noteq> Inr Closed"
proof -
  have p: "\<not> is_past (now (by_user 7 100)) conference"
    by (simp add: by_user_simps is_past_def conference_def)
  have f: "registration_filter vacant conference 7 = []"
    by (simp add: registration_filter_def vacant_def)
  have r: "new_row vacant (by_user 7 100) conference 7 =
      \<lparr>reg_pk = 0, event_id = 1, user_id = 7, registered_at = 100\<rparr>"
    by (simp add: new_row_def vacant_def conference_def by_user_def)
  have "fst (register no_mail_error (by_user 7 100) 1 vacant) =
       Inr (Created \<lparr>reg_pk = 0, event_id = 1, user_id = 7, registered_at = 100\<rparr>)"
    using register_admitted[OF by_user_simps(1) vacant_event p vacant_not_full f, of no_mail_error] r
    by simp
  moreover have "date conference = 100" by (simp add: conference_def)
  ultimately show ?thesis by (simp add: by_user_simps Created_def Closed_def bad_request_def)
qed

text \<open>
  Claim C4, amended. For an existing event whose start time is strictly earlier than
  the admission time, \<open>register\<close> by an authenticated caller fails with
  \<open>Closed\<close> and changes nothing, whatever the capacity and whether or not the
  caller is registered. A successful \<open>register\<close> requires the start time to be
  no earlier than the admission time. When the start time is the admission time or
  later the answer is never \<open>Closed\<close>; in particular at the very instant of the
  start a caller who is not registered is admitted if the event is not full.
\<close>

theorem register_closed:
  assumes "request_user req = Some u" and "get_object db k = Some e"
  shows "(date e < now req \<longrightarrow> register m req k db = (Inr Closed, db, []))
       \<and> (\<forall>r. fst (register m req k db) = Inr (Created r) \<longrightarrow> now req \<le> date e)
       \<and> (now req \<le> date e \<longrightarrow> fst (register m req k db) \<noteq> Inr Closed)
       \<and> (date e = now req \<and> \<not> is_full db e \<and> registration_filter db e u = []
            \<longrightarrow> fst (register m req k db) = Inr (Created (new_row db req e u)))"
  using assms
proof (cases rule: register_cases[where m = m])
  case past
  then show ?thesis by (simp add: is_past_def Closed_def Created_def bad_request_def)
next
  case full
  then show ?thesis by (simp add: is_past_def Closed_def Full_def Created_def bad_request_def)
next
  case dup
  then show ?thesis
    by (simp add: is_past_def Closed_def AlreadyRegistered_def Created_def bad_request_def)
next
  case ok
  then show ?thesis by (simp add: is_past_def Closed_def Created_def bad_request_def)
qed

text \<open>
  After the start both a newcomer and the holder of the seat are answered \<open>Closed\<close>;
  at the instant of the start nobody is.
\<close>

theorem register_closed_witness:
  "register mail_error (by_user 8 101) 1 vacant = (Inr Closed, vacant, [])
   \<and> register mail_error (by_user 7 101) 1 sold_out = (Inr Closed, sold_out, [])
   \<and> fst (register mail_error (by_user 8 100) 1 sold_out) \<noteq> Inr Closed
   \<and> fst (register mail_error (by_user 8 100) 1 vacant) =
       Inr (Created \<lparr>reg_pk = 0, event_id = 1, user_id = 8, registered_at = 100\<rparr>)"
proof -
  have d: "date conference = 100" by (simp add: conference_def)
  have f: "registration_filter vacant conference 8 = []"
    by (simp add: registration_filter_def vacant_def)
  have r: "new_row vacant (by_user 8 100) conference 8 =
      \<lparr>reg_pk = 0, event_id = 1, user_id = 8, registered_at = 100\<rparr>"
    by (simp add: new_row_def vacant_def conference_def by_user_def)
  from register_closed[of "by_user 8 101" 8 vacant 1 conference mail_error] vacant_event d
  have 1: "register mail_error (by_user 8 101) 1 vacant = (Inr Closed, vacant, [])"
    by (simp add: by_user_simps)
  from register_closed[of "by_user 7 101" 7 sold_out 1 conference mail_error] sold_out_event d
  have 2: "register mail_error (by_user 7 101) 1 sold_out = (Inr Closed, sold_out, [])"
    by (simp add: by_user_simps)
  from register_closed[of "by_user 8 100" 8 sold_out 1 conference mail_error] sold_out_event d
  have 3: "fst (register mail_error (by_user 8 100) 1 sold_out) \<noteq> Inr Closed"
    by (simp add: by_user_simps)
  from register_closed[of "by_user 8 100" 8 vacant 1 conference mail_error] vacant_event d
    vacant_not_full f
  have 4: "fst (register mail_error (by_user 8 100) 1 vacant) =
       Inr (Created \<lparr>reg_pk = 0, event_id = 1, user_id = 8, registered_at = 100\<rparr>)"
    by (simp add: by_user_simps r)
  from 1 2 3 4 show ?thesis by blast
qed

section \<open>The confirmation mail\<close>

text \<open>
  Claim C7. The response of \<open>register\<close> and the database it leaves do not depend
  on the mailer. When the admission succeeds, the response is 201 with the created
  registration and that row is in the table, whether or not the mailer fails; a
  failure of the mailer shows only as one printed line.
\<close>

theorem notification_failure_absorbed:
  "fst (register m req k db) = fst (register m' req k db)
   \<and> fst (snd (register m req k db)) = fst (snd (register m' req k db))
   \<and> (\<forall>u e. request_user req = Some u \<and> get_object db k = Some e
          \<and> \<not> is_past (now req) e \<and> \<not> is_full db e \<and> registration_filter db e u = []
        \<longrightarrow> fst (register m req k db) = Inr (Created (new_row db req e u))
          \<and> status (Created (new_row db req e u)) = 201
          \<and> new_row db req e u \<in> set (EventRegistration_objects (fst (snd (register m req k db))))
          \<and> (\<forall>x. m e u = Some x
                \<longrightarrow> snd (snd (register m req k db)) = [''Failed to send email: '' @ x]))"
proof -
  have 1: "fst (register m req k db) = fst (register m' req k db)"
    by (simp add: register_def split: option.splits sum.splits prod.splits)
  have 2: "fst (snd (register m req k db)) = fst (snd (register m' req k db))"
    by (simp add: register_def split: option.splits sum.splits prod.splits)
  have 3: "\<forall>u e. request_user req = Some u \<and> get_object db k = Some e
          \<and> \<not> is_past (now req) e \<and> \<not> is_full db e \<and> registration_filter db e u = []
        \<longrightarrow> fst (register m req k db) = Inr (Created (new_row db req e u))
          \<and> status (Created (new_row db req e u)) = 201
          \<and> new_row db req e u \<in> set (EventRegistration_objects (fst (snd (register m req k db))))
          \<and> (\<forall>x. m e u = Some x
                \<longrightarrow> snd (snd (register m req k db)) = [''Failed to send email: '' @ x])"
    using register_admitted[of req _ db k _ m] by (auto simp: Created_def)
  from 1 2 3 show ?thesis by blast
qed

text \<open>A registration succeeds although the mailer raises.\<close>

theorem notification_failure_absorbed_witness:
  "register mail_error (by_user 7 60) 1 vacant =
     (Inr (Created \<lparr>reg_pk = 0, event_id = 1, user_id = 7, registered_at = 60\<rparr>),
      \<lparr>Event_objects = [conference],
       EventRegistration_objects = [\<lparr>reg_pk = 0, event_id = 1, user_id = 7, registered_at = 60\<rparr>],
       next_pk = 1\<rparr>,
      [''Failed to send email: Connection refused''])
   \<and> fst (register mail_error (by_user 7 60) 1 vacant) =
       fst (register no_mail_error (by_user 7 60) 1 vacant)
   \<and> fst (snd (register mail_error (by_user 7 60) 1 vacant)) =
       fst (snd (register no_mail_error (by_user 7 60) 1 vacant))"
proof -
  have p: "\<not> is_past (now (by_user 7 60)) conference"
    by (simp add: by_user_simps is_past_def conference_def)
  have f: "registration_filter vacant conference 7 = []"
    by (simp add: registration_filter_def vacant_def)
  have r: "new_row vacant (by_user 7 60) conference 7 =
      \<lparr>reg_pk = 0, event_id = 1, user_id = 7, registered_at = 60\<rparr>"
    by (simp add: new_row_def vacant_def conference_def by_user_def)
  have e: "mail_error conference 7 = Some ''Connection refused''"
    by (simp add: mail_error_def)
  note t = notification_failure_absorbed[of mail_error "by_user 7 60" 1 vacant no_mail_error]
  from t have 1: "fst (register mail_error (by_user 7 60) 1 vacant) =
       fst (register no_mail_error (by_user 7 60) 1 vacant)"
    and 2: "fst (snd (register mail_error (by_user 7 60) 1 vacant)) =
       fst (snd (register no_mail_error (by_user 7 60) 1 vacant))"
    by blast+
  from t by_user_simps(1)[of 7 60] vacant_event p vacant_not_full f e
  have 3: "fst (register mail_error (by_user 7 60) 1 vacant) =
      Inr (Created \<lparr>reg_pk = 0, event_id = 1, user_id = 7, registered_at = 60\<rparr>)"
    and 4: "snd (snd (register mail_error (by_user 7 60) 1 vacant)) =
      [''Failed to send email: Connection refused'']"
    unfolding r[symmetric] by auto
  have 5: "fst (snd (register no_mail_error (by_user 7 60) 1 vacant)) =
      \<lparr>Event_objects = [conference],
       EventRegistration_objects = [\<lparr>reg_pk = 0, event_id = 1, user_id = 7, registered_at = 60\<rparr>],
       next_pk = 1\<rparr>"
    using register_admitted[OF by_user_simps(1) vacant_event p vacant_not_full f, of no_mail_error]
    by (simp add: r, simp add: vacant_def)
  from 1 2 3 4 5 show ?thesis by (simp add: prod_eq_iff)
qed

section \<open>The list of registrations\<close>

lemma registrations_of_mset:
  "mset (registrations_of db e) =
     mset (filter (\<lambda>r. event_id r = pk e) (EventRegistration_objects db))"
  by (simp add: registrations_of_def)

lemma registrations_of_sorted:
  "sorted_wrt (\<lambda>a b. registered_at a \<ge> registered_at b) (registrations_of db e)"
proof -
  have "sorted (map (\<lambda>r. - registered_at r) (registrations_of db e))"
    by (simp add: registrations_of_def)
  then show ?thesis by (simp add: sorted_wrt_map)
qed

text \<open>
  Claim C5. For an authenticated caller and an existing event, \<open>registrations\<close>
  answers \<open>Forbidden\<close> unless the caller is the organizer; for the organizer it
  answers 200 with exactly the registrations of that event, each once, ordered by
  \<open>registered_at\<close> descending.
\<close>

theorem registrations_organizer_only:
  assumes "request_user req = Some u" and "get_object db k = Some e"
  shows "(u \<noteq> organizer_id e \<longrightarrow> registrations req k db = Forbidden)
       \<and> (u = organizer_id e \<longrightarrow>
            (\<exists>rs. registrations req k db = \<lparr>status = 200, content = DataList rs\<rparr>
               \<and> mset rs = mset (filter (\<lambda>r. event_id r = k) (EventRegistration_objects db))
               \<and> sorted_wrt (\<lambda>a b. registered_at a \<ge> registered_at b) rs))"
  using assms get_object_pk[OF assms(2)] registrations_of_mset[of db e]
    registrations_of_sorted[of db e]
  by (auto simp: registrations_def)

lemma busy_meetup: "get_object busy 2 = Some meetup"
  by (simp add: get_object_def busy_def conference_def meetup_def)

text \<open>The list of the second example event, for a participant and for the organizer.\<close>

theorem registrations_organizer_only_witness:
  "registrations (by_user 7 80) 2 busy = Forbidden
   \<and> registrations (by_user 10 80) 2 busy =
       \<lparr>status = 200, content = DataList
          [\<lparr>reg_pk = 2, event_id = 2, user_id = 8, registered_at = 70\<rparr>,
           \<lparr>reg_pk = 3, event_id = 2, user_id = 9, registered_at = 60\<rparr>,
           \<lparr>reg_pk = 0, event_id = 2, user_id = 7, registered_at = 50\<rparr>]\<rparr>
   \<and> (\<exists>rs. registrations (by_user 10 80) 2 busy = \<lparr>status = 200, content = DataList rs\<rparr>
          \<and> mset rs = mset (filter (\<lambda>r. event_id r = 2) (EventRegistration_objects busy))
          \<and> sorted_wrt (\<lambda>a b. registered_at a \<ge> registered_at b) rs)"
proof -
  have o: "organizer_id meetup = 10" by (simp add: meetup_def)
  from registrations_organizer_only[OF by_user_simps(1) busy_meetup, of 7 80] o
  have 1: "registrations (by_user 7 80) 2 busy = Forbidden" by simp
  from registrations_organizer_only[OF by_user_simps(1) busy_meetup, of 10 80] o
  have 3: "\<exists>rs. registrations (by_user 10 80) 2 busy = \<lparr>status = 200, content = DataList rs\<rparr>
          \<and> mset rs = mset (filter (\<lambda>r. event_id r = 2) (EventRegistration_objects busy))
          \<and> sorted_wrt (\<lambda>a b. registered_at a \<ge> registered_at b) rs" by simp
  have 2: "registrations (by_user 10 80) 2 busy =
       \<lparr>status = 200, content = DataList
          [\<lparr>reg_pk = 2, event_id = 2, user_id = 8, registered_at = 70\<rparr>,
           \<lparr>reg_pk = 3, event_id = 2, user_id = 9, registered_at = 60\<rparr>,
           \<lparr>reg_pk = 0, event_id = 2, user_id = 7, registered_at = 50\<rparr>]\<rparr>"
    by (simp add: registrations_def by_user_simps busy_meetup o registrations_of_def,
        simp add: busy_def meetup_def)
  from 1 2 3 show ?thesis by blast
qed

section \<open>Unregistering\<close>

lemma filter_key_single:
  "distinct (map f xs) \<Longrightarrow> x \<in> set xs \<Longrightarrow> filter (\<lambda>y. f y = f x) xs = [x]"
proof (induction xs)
  case Nil
  then show ?case by simp
next
  case (Cons a xs)
  show ?case
  proof (cases "a = x")
    case True
    have "f x \<notin> f ` set xs"
      using Cons.prems(1) True by simp
    then have "\<forall>y\<in>set xs. f y \<noteq> f x"
      by (metis imageI)
    then have "filter (\<lambda>y. f y = f x) xs = []"
      by (simp add: filter_empty_conv)
    with True show ?thesis by simp
  next
    case False
    with Cons.prems have "x \<in> set xs" "f a \<noteq> f x" by auto
    with Cons show ?thesis by simp
  qed
qed

lemma registration_filter_single:
  assumes "unique_together db" and "registration_filter db e u \<noteq> []"
  obtains r where "registration_filter db e u = [r]" "r \<in> set (EventRegistration_objects db)"
    "event_id r = pk e" "user_id r = u"
proof -
  from assms(2) obtain r where r: "r \<in> set (EventRegistration_objects db)"
    "event_id r = pk e" "user_id r = u"
    by (auto simp: registration_filter_def filter_empty_conv)
  have "filter (\<lambda>y. (event_id y, user_id y) = (event_id r, user_id r))
      (EventRegistration_objects db) = [r]"
    using assms(1) r(1) unfolding unique_together_def by (rule filter_key_single)
  with r have "registration_filter db e u = [r]"
    by (simp add: registration_filter_def)
  with r that show thesis by blast
qed

lemma delete_by_pk:
  assumes "consistent db" and "r \<in> set (EventRegistration_objects db)"
  shows "filter (\<lambda>x. reg_pk x \<noteq> reg_pk r) (EventRegistration_objects db) =
         filter (\<lambda>x. \<not> (event_id x = event_id r \<and> user_id x = user_id r))
           (EventRegistration_objects db)"
proof (rule filter_cong[OF refl])
  fix x assume x: "x \<in> set (EventRegistration_objects db)"
  from assms(1) have "inj_on reg_pk (set (EventRegistration_objects db))"
    and "inj_on (\<lambda>r. (event_id r, user_id r)) (set (EventRegistration_objects db))"
    by (simp_all add: consistent_def unique_together_def primary_keys_def distinct_map)
  with x assms(2) show "(reg_pk x \<noteq> reg_pk r) = (\<not> (event_id x = event_id r \<and> user_id x = user_id r))"
    by (auto dest: inj_onD)
qed

lemma unregister_absent:
  assumes "request_user req = Some u" and "get_object db k = Some e"
    and "registration_filter db e u = []"
  shows "unregister req k db = (Inr NotRegistered, db)"
  using assms by (simp add: unregister_def registration_get_def)

lemma unregister_present:
  assumes "consistent db" and "request_user req = Some u" and "get_object db k = Some e"
    and "registration_filter db e u \<noteq> []"
  shows "unregister req k db =
     (Inr Unregistered,
      db\<lparr>EventRegistration_objects :=
           filter (\<lambda>r. \<not> (event_id r = k \<and> user_id r = u)) (EventRegistration_objects db)\<rparr>)"
proof -
  from assms(1) have "unique_together db" by (simp add: consistent_def)
  then obtain r where r: "registration_filter db e u = [r]"
    "r \<in> set (EventRegistration_objects db)" "event_id r = pk e" "user_id r = u"
    using assms(4) by (rule registration_filter_single)
  have "pk e = k" using assms(3) by (rule get_object_pk)
  with r delete_by_pk[OF assms(1) r(2)] assms(2,3) show ?thesis
    by (simp add: unregister_def registration_get_def registration_delete_def)
qed

lemma registration_filter_after_delete:
  "pk e = k \<Longrightarrow> registration_filter
     (db\<lparr>EventRegistration_objects :=
           filter (\<lambda>r. \<not> (event_id r = k \<and> user_id r = u)) (EventRegistration_objects db)\<rparr>) e u = []"
  by (auto simp: registration_filter_def filter_empty_conv)

lemma get_object_after_delete:
  "get_object (db\<lparr>EventRegistration_objects := rs\<rparr>) k = get_object db k"
  by (simp add: get_object_def)

text \<open>
  Claim C6. In a consistent database, for an authenticated caller and an existing event:
  if the caller holds a registration, \<open>unregister\<close> succeeds and removes that row
  and no other, and a second \<open>unregister\<close> by the same caller fails with
  \<open>NotRegistered\<close> and changes nothing; if the caller holds none, \<open>unregister\<close>
  fails with \<open>NotRegistered\<close> and leaves the database as it is.
\<close>

theorem unregister_once:
  assumes "consistent db" and "request_user req = Some u" and "request_user req' = Some u"
    and "get_object db k = Some e"
  shows "(registration_filter db e u \<noteq> [] \<longrightarrow>
            unregister req k db =
              (Inr Unregistered,
               db\<lparr>EventRegistration_objects :=
                    filter (\<lambda>r. \<not> (event_id r = k \<and> user_id r = u))
                      (EventRegistration_objects db)\<rparr>)
          \<and> unregister req' k (snd (unregister req k db)) =
              (Inr NotRegistered, snd (unregister req k db)))
       \<and> (registration_filter db e u = [] \<longrightarrow> unregister req k db = (Inr NotRegistered, db))"
proof (cases "registration_filter db e u = []")
  case True
  then show ?thesis using unregister_absent[OF assms(2,4)] by simp
next
  case False
  have k: "pk e = k" using assms(4) by (rule get_object_pk)
  let ?db = "db\<lparr>EventRegistration_objects :=
       filter (\<lambda>r. \<not> (event_id r = k \<and> user_id r = u)) (EventRegistration_objects db)\<rparr>"
  have 1: "unregister req k db = (Inr Unregistered, ?db)"
    using unregister_present[OF assms(1,2,4) False] .
  have "unregister req' k ?db = (Inr NotRegistered, ?db)"
    using assms(3) _ registration_filter_after_delete[OF k]
    by (rule unregister_absent) (simp add: get_object_after_delete assms(4))
  with 1 False show ?thesis by simp
qed

lemma sold_out_consistent: "consistent sold_out"
  by (simp add: consistent_def unique_together_def primary_keys_def sold_out_def)

lemma sold_out_other: "registration_filter sold_out conference 8 = []"
  by (simp add: registration_filter_def sold_out_def)

text \<open>Two calls by the holder of the seat, and one by a user who is not registered.\<close>

theorem unregister_once_witness:
  "unregister (by_user 7 60) 1 sold_out =
     (Inr Unregistered, sold_out\<lparr>EventRegistration_objects := []\<rparr>)
   \<and> unregister (by_user 7 61) 1 (snd (unregister (by_user 7 60) 1 sold_out)) =
       (Inr NotRegistered, sold_out\<lparr>EventRegistration_objects := []\<rparr>)
   \<and> unregister (by_user 8 60) 1 sold_out = (Inr NotRegistered, sold_out)"
proof -
  have d: "filter (\<lambda>r. \<not> (event_id r = 1 \<and> user_id r = 7)) (EventRegistration_objects sold_out) = []"
    by (simp add: sold_out_def)
  note a = unregister_once[OF sold_out_consistent by_user_simps(1) by_user_simps(1) sold_out_event,
      of 7 60 61]
  from a sold_out_holder d
  have 1: "unregister (by_user 7 60) 1 sold_out =
     (Inr Unregistered, sold_out\<lparr>EventRegistration_objects := []\<rparr>)"
    by simp
  from a sold_out_holder
  have "unregister (by_user 7 61) 1 (snd (unregister (by_user 7 60) 1 sold_out)) =
       (Inr NotRegistered, snd (unregister (by_user 7 60) 1 sold_out))"
    by blast
  then have 2: "unregister (by_user 7 61) 1 (snd (unregister (by_user 7 60) 1 sold_out)) =
       (Inr NotRegistered, sold_out\<lparr>EventRegistration_objects := []\<rparr>)"
    unfolding 1 by simp
  from unregister_once[OF sold_out_consistent by_user_simps(1) by_user_simps(1) sold_out_event,
      of 8 60 61] sold_out_other
  have 3: "unregister (by_user 8 60) 1 sold_out = (Inr NotRegistered, sold_out)" by simp
  from 1 2 3 show ?thesis by blast
qed

lemma count_split:
  "length (filter P xs) =
     length (filter (\<lambda>x. P x \<and> Q x) xs)
     + length (filter P (filter (\<lambda>x. \<not> (P x \<and> Q x)) xs))"
  by (induction xs) auto

text \<open>
  Claim C9. In a consistent database, let the caller hold a registration for an event
  whose capacity \<open>C\<close> is exactly filled. After \<open>unregister\<close>, a \<open>register\<close>
  by the same caller, at a time when the event is not past, succeeds: it creates the
  caller's registration, and the count is \<open>C\<close> again.
\<close>

theorem unregister_then_register:
  assumes "consistent db" and "request_user req = Some u" and "request_user req' = Some u"
    and "get_object db k = Some e" and "registration_filter db e u \<noteq> []"
    and "max_participants e = Some C" and "registered_count db e = C"
    and "\<not> is_past (now req') e"
  shows "fst (unregister req k db) = Inr Unregistered
       \<and> fst (register m req' k (snd (unregister req k db))) =
           Inr (Created \<lparr>reg_pk = next_pk db, event_id = k, user_id = u, registered_at = now req'\<rparr>)
       \<and> registration_filter (fst (snd (register m req' k (snd (unregister req k db))))) e u =
           [\<lparr>reg_pk = next_pk db, event_id = k, user_id = u, registered_at = now req'\<rparr>]
       \<and> registered_count (fst (snd (register m req' k (snd (unregister req k db))))) e = C"
proof -
  have k: "pk e = k" using assms(4) by (rule get_object_pk)
  let ?rs = "filter (\<lambda>r. \<not> (event_id r = k \<and> user_id r = u)) (EventRegistration_objects db)"
  let ?db = "db\<lparr>EventRegistration_objects := ?rs\<rparr>"
  have 1: "unregister req k db = (Inr Unregistered, ?db)"
    using unregister_present[OF assms(1,2,4,5)] .
  have ev: "get_object ?db k = Some e"
    by (simp add: get_object_after_delete assms(4))
  have none: "registration_filter ?db e u = []"
    using registration_filter_after_delete[OF k] .
  have u: "unique_together db" using assms(1) by (simp add: consistent_def)
  from u assms(5) obtain r where "registration_filter db e u = [r]"
    by (rule registration_filter_single)
  then have "length (filter (\<lambda>x. event_id x = k \<and> user_id x = u) (EventRegistration_objects db)) = 1"
    by (simp add: registration_filter_def k)
  with count_split[of "\<lambda>x. event_id x = k" "EventRegistration_objects db" "\<lambda>x. user_id x = u"]
  have cnt: "registered_count db e = Suc (registered_count ?db e)"
    by (simp add: registered_count_def k)
  from cnt have less: "registered_count ?db e < C"
    using assms(7) by simp
  then have nf: "\<not> is_full ?db e"
    using assms(6) by (simp add: is_full_def)
  have row: "new_row ?db req' e u =
      \<lparr>reg_pk = next_pk db, event_id = k, user_id = u, registered_at = now req'\<rparr>"
    by (simp add: new_row_def k)
  note reg = register_admitted[OF assms(3) ev assms(8) nf none, of m, unfolded row]
  have 2: "fst (register m req' k ?db) =
      Inr (Created \<lparr>reg_pk = next_pk db, event_id = k, user_id = u, registered_at = now req'\<rparr>)"
    using reg by simp
  have 3: "registration_filter (fst (snd (register m req' k ?db))) e u =
      [\<lparr>reg_pk = next_pk db, event_id = k, user_id = u, registered_at = now req'\<rparr>]"
    using reg none by (simp add: registration_filter_def k)
  have 4: "registered_count (fst (snd (register m req' k ?db))) e = C"
    using reg cnt assms(7) by (simp add: registered_count_def k)
  from 1 2 3 4 show ?thesis by simp
qed

text \<open>The holder of the only seat gives it up and takes it again.\<close>

theorem unregister_then_register_witness:
  "fst (unregister (by_user 7 60) 1 sold_out) = Inr Unregistered
   \<and> fst (register no_mail_error (by_user 7 61) 1 (snd (unregister (by_user 7 60) 1 sold_out))) =
       Inr (Created \<lparr>reg_pk = 1, event_id = 1, user_id = 7, registered_at = 61\<rparr>)
   \<and> registered_count
        (fst (snd (register no_mail_error (by_user 7 61) 1
           (snd (unregister (by_user 7 60) 1 sold_out))))) conference = 1"
proof -
  have p: "\<not> is_past (now (by_user 7 61)) conference"
    by (simp add: by_user_simps is_past_def conference_def)
  have n: "next_pk sold_out = 1" by (simp add: sold_out_def)
  from unregister_then_register[OF sold_out_consistent by_user_simps(1) by_user_simps(1)
      sold_out_event sold_out_holder conference_capacity sold_out_count p, of 60 no_mail_error]
  show ?thesis by (simp add: n by_user_simps)
qed

text \<open>
  Claim C10. \<open>unregister\<close> does not read the clock. For a caller who holds a
  registration for an event that is already past, it succeeds (the answer is not
  \<open>Closed\<close>) and removes the registration.
\<close>

theorem unregister_ignores_start_time:
  assumes "consistent db" and "request_user req = Some u" and "get_object db k = Some e"
    and "registration_filter db e u \<noteq> []" and "is_past (now req) e"
  shows "unregister req k db =
           (Inr Unregistered,
            db\<lparr>EventRegistration_objects :=
                 filter (\<lambda>r. \<not> (event_id r = k \<and> user_id r = u)) (EventRegistration_objects db)\<rparr>)
       \<and> fst (unregister req k db) \<noteq> Inr Closed
       \<and> registration_filter (snd (unregister req k db)) e u = []
       \<and> unregister (req\<lparr>now := t\<rparr>) k db = unregister req k db"
proof -
  have k: "pk e = k" using assms(3) by (rule get_object_pk)
  have 1: "unregister req k db =
           (Inr Unregistered,
            db\<lparr>EventRegistration_objects :=
                 filter (\<lambda>r. \<not> (event_id r = k \<and> user_id r = u)) (EventRegistration_objects db)\<rparr>)"
    using unregister_present[OF assms(1-4)] .
  have 2: "Unregistered \<noteq> Closed"
    by (simp add: Unregistered_def Closed_def bad_request_def)
  have 3: "registration_filter (snd (unregister req k db)) e u = []"
    using registration_filter_after_delete[OF k] by (simp add: 1)
  have 4: "unregister (req\<lparr>now := t\<rparr>) k db = unregister req k db"
    by (simp add: unregister_def Unauthenticated_def split: option.splits)
  from 1 2 3 4 show ?thesis by simp
qed

text \<open>The holder of the seat unregisters after the event has started.\<close>

theorem unregister_ignores_start_time_witness:
  "is_past (now (by_user 7 150)) conference
   \<and> unregister (by_user 7 150) 1 sold_out =
       (Inr Unregistered, sold_out\<lparr>EventRegistration_objects := []\<rparr>)"
proof -
  have p: "is_past (now (by_user 7 150)) conference"
    by (simp add: by_user_simps is_past_def conference_def)
  have d: "filter (\<lambda>r. \<not> (event_id r = 1 \<and> user_id r = 7)) (EventRegistration_objects sold_out) = []"
    by (simp add: sold_out_def)
  from unregister_ignores_start_time[OF sold_out_consistent by_user_simps(1) sold_out_event
      sold_out_holder p]
  have "unregister (by_user 7 150) 1 sold_out =
       (Inr Unregistered, sold_out\<lparr>EventRegistration_objects :=
          filter (\<lambda>r. \<not> (event_id r = 1 \<and> user_id r = 7)) (EventRegistration_objects sold_out)\<rparr>)"
    by blast
  with p show ?thesis unfolding d by simp
qed

section \<open>The integrity constraints are kept\<close>

lemma register_consistent:
  assumes "consistent db"
  shows "consistent (fst (snd (register m req k db)))"
proof (cases "request_user req")
  case None
  then show ?thesis using assms by (simp add: register_def)
next
  case (Some u)
  show ?thesis
  proof (cases "get_object db k")
    case None
    then show ?thesis using assms Some by (simp add: register_def)
  next
    case (Some e)
    from \<open>request_user req = Some u\<close> Some show ?thesis
    proof (cases rule: register_cases[where m = m])
      case ok
      from ok(3) have fresh: "(pk e, u) \<notin> (\<lambda>r. (event_id r, user_id r)) ` set (EventRegistration_objects db)"
        by (auto simp: registration_filter_def filter_empty_conv)
      from assms have "\<forall>r\<in>set (EventRegistration_objects db). reg_pk r < next_pk db"
        by (simp add: consistent_def primary_keys_def list_all_iff)
      then have new: "next_pk db \<notin> reg_pk ` set (EventRegistration_objects db)"
        and below: "\<forall>r\<in>set (EventRegistration_objects db). reg_pk r < Suc (next_pk db)"
        by auto
      from assms fresh new below ok(4) show ?thesis
        by (simp add: consistent_def unique_together_def primary_keys_def new_row_def
            list_all_iff)
    qed (use assms in simp_all)
  qed
qed

lemma unregister_consistent:
  assumes "consistent db"
  shows "consistent (snd (unregister req k db))"
proof -
  have "consistent (registration_delete db r)" for r
    using assms
    by (simp add: consistent_def unique_together_def primary_keys_def registration_delete_def
        distinct_map_filter list_all_iff)
  then show ?thesis using assms
    by (simp add: unregister_def split: option.splits sum.splits exception.splits)
qed

lemma run_consistent: "consistent db \<Longrightarrow> consistent (run m db cs)"
  unfolding run_def
proof (induction cs arbitrary: db)
  case Nil
  then show ?case by simp
next
  case (Cons c cs)
  have "consistent (perform m db c)"
    using Cons.prems by (cases c) (simp_all add: register_consistent unregister_consistent)
  then show ?case using Cons.IH by simp
qed


section \<open>Status codes\<close>

text \<open>
  Claim C8, as stated, fails: after the start \<open>register\<close> answers \<open>Closed\<close>, on
  a full event it answers \<open>Full\<close>, and the two different errors carry the same
  status code; likewise \<open>unregister\<close> answers \<open>NotFound\<close> for an unknown
  event and \<open>NotRegistered\<close> for a caller without a registration, both with 404.
\<close>

theorem status_codes_shared_counterexample:
  "fst (register no_mail_error (by_user 8 101) 1 vacant) = Inr Closed
   \<and> fst (register no_mail_error (by_user 8 60) 1 sold_out) = Inr Full
   \<and> Closed \<noteq> Full \<and> status Closed = status Full
   \<and> fst (unregister (by_user 8 60) 2 sold_out) = Inr NotFound
   \<and> fst (unregister (by_user 8 60) 1 sold_out) = Inr NotRegistered
   \<and> NotFound \<noteq> NotRegistered \<and> status NotFound = status NotRegistered"
proof -
  have p1: "is_past (now (by_user 8 101)) conference"
    by (simp add: by_user_simps is_past_def conference_def)
  have p2: "\<not> is_past (now (by_user 8 60)) conference"
    by (simp add: by_user_simps is_past_def conference_def)
  have n: "get_object sold_out 2 = None"
    by (simp add: get_object_def sold_out_def conference_def)
  have 1: "fst (register no_mail_error (by_user 8 101) 1 vacant) = Inr Closed"
    using register_past[OF by_user_simps(1) vacant_event p1, of no_mail_error] by simp
  have 2: "fst (register no_mail_error (by_user 8 60) 1 sold_out) = Inr Full"
    using register_full[OF by_user_simps(1) sold_out_event p2 sold_out_full, of no_mail_error]
    by simp
  have 3: "Closed \<noteq> Full \<and> status Closed = status Full"
    by (simp add: Closed_def Full_def bad_request_def)
  have 4: "fst (unregister (by_user 8 60) 2 sold_out) = Inr NotFound"
    using n by (simp add: unregister_def by_user_simps)
  have 5: "fst (unregister (by_user 8 60) 1 sold_out) = Inr NotRegistered"
    using unregister_absent[OF by_user_simps(1) sold_out_event sold_out_other] by simp
  have 6: "NotFound \<noteq> NotRegistered \<and> status NotFound = status NotRegistered"
    by (simp add: NotFound_def NotRegistered_def)
  from 1 2 3 4 5 6 show ?thesis by blast
qed

lemma unauthenticated_refused:
  assumes "request_user req = None"
  shows "fst (register m req k db) = Inr (Unauthenticated req)"
    and "fst (unregister req k db) = Inr (Unauthenticated req)"
    and "registrations req k db = Unauthenticated req"
    and "status (Unauthenticated req) = refusal_status req"
  using assms
  by (simp_all add: register_def unregister_def registrations_def Unauthenticated_def)

lemma unknown_event:
  assumes "request_user req = Some u" and "get_object db k = None"
  shows "fst (register m req k db) = Inr NotFound"
    and "fst (unregister req k db) = Inr NotFound"
    and "registrations req k db = NotFound"
    and "status NotFound = 404"
  using assms
  by (simp_all add: register_def unregister_def registrations_def NotFound_def)

text \<open>
  Claim C8, amended. The errors that the three operations return have fixed status
  codes. A request without a user is refused by all three with the status that the
  project's authentication settings give. For an authenticated caller: an unknown
  event is \<open>NotFound\<close> with 404 in all three; \<open>register\<close> answers
  \<open>Closed\<close>, \<open>Full\<close> and \<open>AlreadyRegistered\<close> all with 400;
  \<open>unregister\<close> answers \<open>NotRegistered\<close> with 404; \<open>registrations\<close>
  answers \<open>Forbidden\<close> with 403. The errors that share a status code differ only
  in the body of the response.
\<close>

theorem status_codes:
  "(request_user req = None \<longrightarrow>
      fst (register m req k db) = Inr (Unauthenticated req)
    \<and> fst (unregister req k db) = Inr (Unauthenticated req)
    \<and> registrations req k db = Unauthenticated req
    \<and> status (Unauthenticated req) = refusal_status req)
   \<and> (\<forall>u. request_user req = Some u \<longrightarrow>
        (get_object db k = None \<longrightarrow>
           fst (register m req k db) = Inr NotFound
         \<and> fst (unregister req k db) = Inr NotFound
         \<and> registrations req k db = NotFound
         \<and> status NotFound = 404)
      \<and> (\<forall>e. get_object db k = Some e \<longrightarrow>
           (is_past (now req) e \<longrightarrow>
              fst (register m req k db) = Inr Closed \<and> status Closed = 400)
         \<and> (\<not> is_past (now req) e \<and> is_full db e \<longrightarrow>
              fst (register m req k db) = Inr Full \<and> status Full = 400)
         \<and> (\<not> is_past (now req) e \<and> \<not> is_full db e \<and> registration_filter db e u \<noteq> [] \<longrightarrow>
              fst (register m req k db) = Inr AlreadyRegistered
            \<and> status AlreadyRegistered = 400)
         \<and> (registration_filter db e u = [] \<longrightarrow>
              fst (unregister req k db) = Inr NotRegistered \<and> status NotRegistered = 404)
         \<and> (u \<noteq> organizer_id e \<longrightarrow>
              registrations req k db = Forbidden \<and> status Forbidden = 403)))
   \<and> distinct (map content [Closed, Full, AlreadyRegistered])
   \<and> content NotFound \<noteq> content NotRegistered"
proof -
  have 1: "request_user req = None \<longrightarrow>
      fst (register m req k db) = Inr (Unauthenticated req)
    \<and> fst (unregister req k db) = Inr (Unauthenticated req)
    \<and> registrations req k db = Unauthenticated req
    \<and> status (Unauthenticated req) = refusal_status req"
    using unauthenticated_refused by blast
  have 2: "get_object db k = None \<longrightarrow>
           fst (register m req k db) = Inr NotFound
         \<and> fst (unregister req k db) = Inr NotFound
         \<and> registrations req k db = NotFound
         \<and> status NotFound = 404" if "request_user req = Some u" for u
    using unknown_event[OF that] by blast
  have 3: "(is_past (now req) e \<longrightarrow>
              fst (register m req k db) = Inr Closed \<and> status Closed = 400)
         \<and> (\<not> is_past (now req) e \<and> is_full db e \<longrightarrow>
              fst (register m req k db) = Inr Full \<and> status Full = 400)
         \<and> (\<not> is_past (now req) e \<and> \<not> is_full db e \<and> registration_filter db e u \<noteq> [] \<longrightarrow>
              fst (register m req k db) = Inr AlreadyRegistered
            \<and> status AlreadyRegistered = 400)
         \<and> (registration_filter db e u = [] \<longrightarrow>
              fst (unregister req k db) = Inr NotRegistered \<and> status NotRegistered = 404)
         \<and> (u \<noteq> organizer_id e \<longrightarrow>
              registrations req k db = Forbidden \<and> status Forbidden = 403)"
    if u: "request_user req = Some u" and e: "get_object db k = Some e" for u e
    using register_past[OF u e, of m] register_full[OF u e, of m]
      register_duplicate[OF u e, of m] unregister_absent[OF u e] u e
    by (simp add: Closed_def Full_def AlreadyRegistered_def NotRegistered_def Forbidden_def
        bad_request_def registrations_def)
  have 4: "distinct (map content [Closed, Full, AlreadyRegistered])
      \<and> content NotFound \<noteq> content NotRegistered"
    by (simp add: Closed_def Full_def AlreadyRegistered_def NotFound_def NotRegistered_def
        bad_request_def)
  from 1 2 3 4 show ?thesis by blast
qed

text \<open>Each of the errors, returned by a call on the example data.\<close>

theorem status_codes_witness:
  "fst (register no_mail_error anonymous 1 sold_out) = Inr (Unauthenticated anonymous)
   \<and> status (Unauthenticated anonymous) = 403
   \<and> fst (unregister (by_user 8 60) 2 sold_out) = Inr NotFound
   \<and> fst (register no_mail_error (by_user 8 101) 1 sold_out) = Inr Closed
   \<and> fst (register no_mail_error (by_user 8 60) 1 sold_out) = Inr Full
   \<and> fst (unregister (by_user 8 60) 1 sold_out) = Inr NotRegistered
   \<and> registrations (by_user 8 60) 1 sold_out = Forbidden"
proof -
  have a: "request_user anonymous = None" "refusal_status anonymous = 403"
    by (simp_all add: anonymous_def)
  have n: "get_object sold_out 2 = None"
    by (simp add: get_object_def sold_out_def conference_def)
  have p1: "is_past (now (by_user 8 101)) conference"
    by (simp add: by_user_simps is_past_def conference_def)
  have p2: "\<not> is_past (now (by_user 8 60)) conference"
    by (simp add: by_user_simps is_past_def conference_def)
  have o: "8 \<noteq> organizer_id conference" by (simp add: conference_def)
  from status_codes[of anonymous no_mail_error 1 sold_out] a
  have 1: "fst (register no_mail_error anonymous 1 sold_out) = Inr (Unauthenticated anonymous)"
    and 2: "status (Unauthenticated anonymous) = 403"
    by simp_all
  from status_codes[of "by_user 8 60" no_mail_error 2 sold_out] n
  have 3: "fst (unregister (by_user 8 60) 2 sold_out) = Inr NotFound"
    by (simp add: by_user_simps)
  from status_codes[of "by_user 8 101" no_mail_error 1 sold_out] sold_out_event p1
  have 4: "fst (register no_mail_error (by_user 8 101) 1 sold_out) = Inr Closed"
    by (simp add: by_user_simps)
  from status_codes[of "by_user 8 60" no_mail_error 1 sold_out] sold_out_event p2 sold_out_full
    sold_out_other o
  have 5: "fst (register no_mail_error (by_user 8 60) 1 sold_out) = Inr Full"
    and 6: "fst (unregister (by_user 8 60) 1 sold_out) = Inr NotRegistered"
    and 7: "registrations (by_user 8 60) 1 sold_out = Forbidden"
    by (simp_all add: by_user_simps)
  from 1 2 3 4 5 6 7 show ?thesis by blast
qed

section \<open>Check and insert are two steps\<close>

















end
